theory Spec2Isabelle
  imports Main "HOL-Library.Sublist"
begin

section \<open>Python strings\<close>

text \<open>
  A Python \<^verbatim>\<open>str\<close> is modelled as a \<^typ>\<open>string\<close> whose characters are the code
  points below 256, so \<^const>\<open>length\<close> is Python's \<^verbatim>\<open>len\<close> for such text. The
  character classes are the ones CPython uses for \<^verbatim>\<open>str\<close> patterns and methods on
  that range: \<^verbatim>\<open>\s\<close> and \<^verbatim>\<open>str.strip\<close> (\<^verbatim>\<open>str.isspace\<close>), \<^verbatim>\<open>\d\<close> (decimal digits),
  \<^verbatim>\<open>\w\<close> (\<^verbatim>\<open>str.isalnum\<close> or underscore) and \<^verbatim>\<open>str.lower\<close>.
\<close>

definition code :: "char \<Rightarrow> nat" where
  "code c = of_char c"

definition space_code :: "nat \<Rightarrow> bool" where
  "space_code n = ((9 \<le> n \<and> n \<le> 13) \<or> (28 \<le> n \<and> n \<le> 32) \<or> n = 133 \<or> n = 160)"

definition isspace :: "char \<Rightarrow> bool" where
  "isspace c = space_code (code c)"

definition decimal_code :: "nat \<Rightarrow> bool" where
  "decimal_code n = (48 \<le> n \<and> n \<le> 57)"

definition isdecimal :: "char \<Rightarrow> bool" where
  "isdecimal c = decimal_code (code c)"

definition word_code :: "nat \<Rightarrow> bool" where
  "word_code n =
     (decimal_code n \<or> (65 \<le> n \<and> n \<le> 90) \<or> (97 \<le> n \<and> n \<le> 122) \<or> n = 95 \<or>
      n = 170 \<or> n = 178 \<or> n = 179 \<or> n = 181 \<or> n = 185 \<or> n = 186 \<or>
      n = 188 \<or> n = 189 \<or> n = 190 \<or>
      (192 \<le> n \<and> n \<le> 214) \<or> (216 \<le> n \<and> n \<le> 246) \<or> (248 \<le> n \<and> n \<le> 255))"

definition isword :: "char \<Rightarrow> bool" where
  "isword c = word_code (code c)"

text \<open>
  The characters with a lowercase form 32 places further on: \<open>A\<close> to \<open>Z\<close> and the
  accented capitals. For them bit 5 is clear, and adding 32 sets it.
\<close>

definition upper_code :: "nat \<Rightarrow> bool" where
  "upper_code n = ((65 \<le> n \<and> n \<le> 90) \<or> (192 \<le> n \<and> n \<le> 214) \<or> (216 \<le> n \<and> n \<le> 222))"

fun set_bit5 :: "char \<Rightarrow> char" where
  "set_bit5 (Char b0 b1 b2 b3 b4 b5 b6 b7) = Char b0 b1 b2 b3 b4 True b6 b7"

fun clear_bit5 :: "char \<Rightarrow> char" where
  "clear_bit5 (Char b0 b1 b2 b3 b4 b5 b6 b7) = Char b0 b1 b2 b3 b4 False b6 b7"

definition lower_char :: "char \<Rightarrow> char" where
  "lower_char c = (if upper_code (code c) then set_bit5 c else c)"

text \<open>\<^verbatim>\<open>s.lower()\<close>\<close>

definition lower :: "string \<Rightarrow> string" where
  "lower s = map lower_char s"

text \<open>\<^verbatim>\<open>s.startswith(p)\<close> is \<^term>\<open>prefix p s\<close>. \<^verbatim>\<open>needle in haystack\<close>:\<close>

fun str_in :: "string \<Rightarrow> string \<Rightarrow> bool" where
  "str_in needle [] = (needle = [])"
| "str_in needle (c # cs) = (prefix needle (c # cs) \<or> str_in needle cs)"

text \<open>\<^verbatim>\<open>s.find(sub)\<close>, with \<open>None\<close> for Python's \<open>-1\<close>.\<close>

fun find_idx :: "string \<Rightarrow> string \<Rightarrow> nat option" where
  "find_idx sub [] = (if sub = [] then Some 0 else None)"
| "find_idx sub (c # cs) =
     (if prefix sub (c # cs) then Some 0 else map_option Suc (find_idx sub cs))"

text \<open>\<^verbatim>\<open>s.find(sub, start)\<close> for \<open>0 \<le> start\<close>, as the Python integer it returns.\<close>

definition py_find :: "string \<Rightarrow> string \<Rightarrow> int \<Rightarrow> int" where
  "py_find s sub start =
     (if int (length s) < start then -1
      else case find_idx sub (drop (nat start) s) of
             None \<Rightarrow> -1
           | Some i \<Rightarrow> start + int i)"

text \<open>\<^verbatim>\<open>s[a:b]\<close> for \<open>0 \<le> a\<close> and \<open>0 \<le> b\<close>.\<close>

definition slice :: "string \<Rightarrow> int \<Rightarrow> int \<Rightarrow> string" where
  "slice s a b = take (nat (b - a)) (drop (nat a) s)"

text \<open>\<^verbatim>\<open>s.strip()\<close>\<close>

definition strip :: "string \<Rightarrow> string" where
  "strip s = rev (dropWhile isspace (rev (dropWhile isspace s)))"

text \<open>\<^verbatim>\<open>s.replace(old, new)\<close>: every non-overlapping occurrence, from the left.\<close>

function replace :: "string \<Rightarrow> string \<Rightarrow> string \<Rightarrow> string" where
  "replace old new [] = (if old = [] then new else [])"
| "replace old new (c # cs) =
     (if prefix old (c # cs) then new @ (if old = [] then c # replace old new cs
                                          else replace old new (drop (length old - 1) cs))
      else c # replace old new cs)"
  by pat_completeness auto
termination
  by (relation "measure (\<lambda>(old, new, s). length s)") auto

text \<open>\<^verbatim>\<open>str(n)\<close> of a Python integer, as the f-strings format it.\<close>

definition digit_char :: "nat \<Rightarrow> char" where
  "digit_char d = char_of (48 + d)"

fun str_nat :: "nat \<Rightarrow> string" where
  "str_nat n = (if n < 10 then [digit_char n] else str_nat (n div 10) @ [digit_char (n mod 10)])"

definition str_int :: "int \<Rightarrow> string" where
  "str_int i = (if i < 0 then CHR ''-'' # str_nat (nat (- i)) else str_nat (nat i))"

section \<open>Regular expressions\<close>

text \<open>
  The fragment of Python's \<^verbatim>\<open>re\<close> the scraper's patterns are written in: literals,
  character sets, sequence, alternation, greedy \<^verbatim>\<open>?\<close>, greedy \<^verbatim>\<open>*\<close> and \<^verbatim>\<open>+\<close> over a
  single character set, and one capturing group. A match is a backtracking search; the
  matcher returns every way to match at the front of the text, best first, as the rest of
  the text and the text of group 1 (if the group has matched).
\<close>

datatype citem = One char | Range char char | Digit | Space | Word

datatype atom = Lit char | In "citem list" | NotIn "citem list"

datatype regex =
    Atom atom
  | Str string
  | Seq regex regex
  | Alt regex regex
  | Opt regex
  | Star atom
  | Plus atom
  | Group regex

fun citem_has :: "citem \<Rightarrow> char \<Rightarrow> bool" where
  "citem_has (One a) c = (c = a)"
| "citem_has (Range a b) c = (code a \<le> code c \<and> code c \<le> code b)"
| "citem_has Digit c = isdecimal c"
| "citem_has Space c = isspace c"
| "citem_has Word c = isword c"

text \<open>
  With \<^verbatim>\<open>re.IGNORECASE\<close> a character matches a literal when their lowercase forms
  agree, and matches a set when its lowercase form is the lowercase of a member.
\<close>

definition case_variants :: "char \<Rightarrow> char list" where
  "case_variants c =
     (let l = lower_char c
      in l # (if upper_code (code (clear_bit5 l)) then [clear_bit5 l] else []))"

fun citem_has_ic :: "citem \<Rightarrow> char \<Rightarrow> bool" where
  "citem_has_ic (One a) c = (lower_char c = lower_char a)"
| "citem_has_ic (Range a b) c = list_ex (citem_has (Range a b)) (case_variants c)"
| "citem_has_ic Digit c = isdecimal (lower_char c)"
| "citem_has_ic Space c = isspace (lower_char c)"
| "citem_has_ic Word c = isword (lower_char c)"

definition in_set :: "bool \<Rightarrow> citem list \<Rightarrow> char \<Rightarrow> bool" where
  "in_set ic items c = list_ex (\<lambda>i. if ic then citem_has_ic i c else citem_has i c) items"

fun atom_matches :: "bool \<Rightarrow> atom \<Rightarrow> char \<Rightarrow> bool" where
  "atom_matches ic (Lit a) c = (if ic then lower_char c = lower_char a else c = a)"
| "atom_matches ic (In items) c = in_set ic items c"
| "atom_matches ic (NotIn items) c = (\<not> in_set ic items c)"

fun str_matches :: "bool \<Rightarrow> string \<Rightarrow> string \<Rightarrow> string option" where
  "str_matches ic [] s = Some s"
| "str_matches ic (a # as) [] = None"
| "str_matches ic (a # as) (c # cs) =
     (if atom_matches ic (Lit a) c then str_matches ic as cs else None)"

text \<open>
  The matcher works through a list of frames, the pattern that is still to be matched:
  \<open>Re r\<close> is a piece of it, \<open>Close s0\<close> ends group 1, which began where the text was
  \<open>s0\<close>. An alternative, an option or one more repetition is tried first and given up
  when the rest of the pattern fails after it. The result is the text left after the
  match and the text of group 1.
\<close>

datatype frame = Re regex | Close string

type_synonym mstate = "string \<times> string option"

fun weight :: "regex \<Rightarrow> nat" where
  "weight (Atom a) = 1"
| "weight (Str lit) = 1"
| "weight (Seq r1 r2) = Suc (weight r1 + weight r2)"
| "weight (Alt r1 r2) = Suc (weight r1 + weight r2)"
| "weight (Opt r) = Suc (weight r)"
| "weight (Star a) = 1"
| "weight (Plus a) = 2"
| "weight (Group r) = Suc (Suc (weight r))"

fun frame_weight :: "frame \<Rightarrow> nat" where
  "frame_weight (Re r) = weight r"
| "frame_weight (Close s0) = 1"

function backtrack :: "bool \<Rightarrow> frame list \<Rightarrow> string \<Rightarrow> string option \<Rightarrow> mstate option" where
  "backtrack ic [] s g = Some (s, g)"
| "backtrack ic (Close s0 # k) s g = backtrack ic k s (Some (take (length s0 - length s) s0))"
| "backtrack ic (Re (Atom a) # k) s g =
     (case s of
        [] \<Rightarrow> None
      | c # cs \<Rightarrow> if atom_matches ic a c then backtrack ic k cs g else None)"
| "backtrack ic (Re (Str lit) # k) s g =
     (case str_matches ic lit s of
        None \<Rightarrow> None
      | Some rest \<Rightarrow> backtrack ic k rest g)"
| "backtrack ic (Re (Seq r1 r2) # k) s g = backtrack ic (Re r1 # Re r2 # k) s g"
| "backtrack ic (Re (Alt r1 r2) # k) s g =
     (case backtrack ic (Re r1 # k) s g of
        Some m \<Rightarrow> Some m
      | None \<Rightarrow> backtrack ic (Re r2 # k) s g)"
| "backtrack ic (Re (Opt r) # k) s g =
     (case backtrack ic (Re r # k) s g of
        Some m \<Rightarrow> Some m
      | None \<Rightarrow> backtrack ic k s g)"
| "backtrack ic (Re (Star a) # k) s g =
     (case s of
        [] \<Rightarrow> backtrack ic k s g
      | c # cs \<Rightarrow>
          if atom_matches ic a c
          then (case backtrack ic (Re (Star a) # k) cs g of
                  Some m \<Rightarrow> Some m
                | None \<Rightarrow> backtrack ic k s g)
          else backtrack ic k s g)"
| "backtrack ic (Re (Plus a) # k) s g =
     (case s of
        [] \<Rightarrow> None
      | c # cs \<Rightarrow> if atom_matches ic a c then backtrack ic (Re (Star a) # k) cs g else None)"
| "backtrack ic (Re (Group r) # k) s g = backtrack ic (Re r # Close s # k) s g"
  by pat_completeness auto
termination
  by (relation "measures [\<lambda>(ic, k, s, g). sum_list (map frame_weight k),
                          \<lambda>(ic, k, s, g). length s]") auto

text \<open>The match of the pattern at the very front of the text.\<close>

definition match_here :: "bool \<Rightarrow> regex \<Rightarrow> string \<Rightarrow> mstate option" where
  "match_here ic r s = backtrack ic [Re r] s None"

text \<open>\<^verbatim>\<open>re.search(pattern, text).group(1)\<close>, \<open>None\<close> when there is no match.\<close>

fun re_search :: "bool \<Rightarrow> regex \<Rightarrow> string \<Rightarrow> string option" where
  "re_search ic r [] = (case match_here ic r [] of None \<Rightarrow> None | Some (_, g) \<Rightarrow> g)"
| "re_search ic r (c # cs) =
     (case match_here ic r (c # cs) of None \<Rightarrow> re_search ic r cs | Some (_, g) \<Rightarrow> g)"

text \<open>
  \<^verbatim>\<open>re.findall(pattern, text)\<close> for a pattern with one group: the group's text at each
  successive non-overlapping match. A match that consumes nothing moves on by one
  character.
\<close>

function re_findall :: "regex \<Rightarrow> string \<Rightarrow> string list" where
  "re_findall r [] = (case match_here False r [] of Some (_, Some g) \<Rightarrow> [g] | _ \<Rightarrow> [])"
| "re_findall r (c # cs) =
     (case match_here False r (c # cs) of
        None \<Rightarrow> re_findall r cs
      | Some (rest, g) \<Rightarrow>
          (case g of None \<Rightarrow> [] | Some t \<Rightarrow> [t]) @
          (if length rest \<le> length cs then re_findall r rest else re_findall r cs))"
  by pat_completeness auto
termination
  by (relation "measure (\<lambda>(r, s). length s)") auto

section \<open>The parsed page\<close>

text \<open>
  The tree BeautifulSoup builds. \<open>NavigableString\<close> is text that \<^verbatim>\<open>get_text()\<close> collects;
  \<open>Comment\<close> stands for the strings it leaves out (comments, declarations, script and
  style content). Attribute values are strings, as \<^verbatim>\<open>href\<close> and \<^verbatim>\<open>src\<close> are.
\<close>

datatype node =
    NavigableString string
  | Comment string
  | Tag string "(string \<times> string) list" "node list"

fun get_text :: "node \<Rightarrow> string" where
  "get_text (NavigableString s) = s"
| "get_text (Comment s) = []"
| "get_text (Tag nm attrs contents) = concat (map get_text contents)"

text \<open>\<^verbatim>\<open>tag.get(key)\<close>\<close>

fun get_attr :: "node \<Rightarrow> string \<Rightarrow> string option" where
  "get_attr (Tag nm attrs contents) key = map_of attrs key"
| "get_attr (NavigableString s) key = None"
| "get_attr (Comment s) key = None"

text \<open>
  An element of the tree is known by its place (the child indices from the root) and
  carries the subtree found there. \<^verbatim>\<open>tag.descendants\<close> lists the elements below a tag
  in document order.
\<close>

type_synonym path = "nat list"
type_synonym element = "path \<times> node"

fun descendants :: "node \<Rightarrow> element list"
  and descendants_from :: "nat \<Rightarrow> node list \<Rightarrow> element list" where
  "descendants (Tag nm attrs contents) = descendants_from 0 contents"
| "descendants (NavigableString s) = []"
| "descendants (Comment s) = []"
| "descendants_from i [] = []"
| "descendants_from i (c # cs) =
     ([i], c) # map (\<lambda>(p, d). (i # p, d)) (descendants c) @ descendants_from (Suc i) cs"

fun node_at :: "node \<Rightarrow> path \<Rightarrow> node option" where
  "node_at n [] = Some n"
| "node_at (Tag nm attrs contents) (i # p) =
     (if i < length contents then node_at (contents ! i) p else None)"
| "node_at (NavigableString s) (i # p) = None"
| "node_at (Comment s) (i # p) = None"

text \<open>\<^verbatim>\<open>element.parent\<close>, \<open>None\<close> at the root.\<close>

definition parent :: "node \<Rightarrow> element \<Rightarrow> element option" where
  "parent soup el =
     (case el of (p, c) \<Rightarrow>
        if p = [] then None else map_option (Pair (butlast p)) (node_at soup (butlast p)))"

text \<open>
  \<^verbatim>\<open>x == y\<close> on two elements, as \<^verbatim>\<open>x in list\<close> applies it: the same object, or two
  tags with equal names, equal attribute dictionaries and pairwise equal contents, or two
  strings with the same characters.
\<close>

definition dict_eq :: "(string \<times> string) list \<Rightarrow> (string \<times> string) list \<Rightarrow> bool" where
  "dict_eq a b = list_all (\<lambda>k. map_of a k = map_of b k) (map fst a @ map fst b)"

fun node_eq :: "node \<Rightarrow> node \<Rightarrow> bool"
  and nodes_eq :: "node list \<Rightarrow> node list \<Rightarrow> bool" where
  "node_eq (Tag n a cs) (Tag m b ds) = (n = m \<and> dict_eq a b \<and> nodes_eq cs ds)"
| "node_eq (Tag n a cs) (NavigableString t) = False"
| "node_eq (Tag n a cs) (Comment t) = False"
| "node_eq (NavigableString s) (Tag m b ds) = False"
| "node_eq (Comment s) (Tag m b ds) = False"
| "node_eq (NavigableString s) (NavigableString t) = (s = t)"
| "node_eq (NavigableString s) (Comment t) = (s = t)"
| "node_eq (Comment s) (NavigableString t) = (s = t)"
| "node_eq (Comment s) (Comment t) = (s = t)"
| "nodes_eq [] [] = True"
| "nodes_eq (c # cs) (d # ds) = (node_eq c d \<and> nodes_eq cs ds)"
| "nodes_eq [] (d # ds) = False"
| "nodes_eq (c # cs) [] = False"

definition py_eq :: "element \<Rightarrow> element \<Rightarrow> bool" where
  "py_eq x y = (fst x = fst y \<or> node_eq (snd x) (snd y))"

text \<open>The tags \<^verbatim>\<open>href=re.compile(r'rfq_detail\.htm')\<close> with name \<^verbatim>\<open>a\<close> selects.\<close>

fun is_detail_link :: "node \<Rightarrow> bool" where
  "is_detail_link (Tag nm attrs contents) =
     (nm = ''a'' \<and> (case map_of attrs ''href'' of
                      None \<Rightarrow> False
                    | Some href \<Rightarrow> str_in ''rfq_detail.htm'' href))"
| "is_detail_link (NavigableString s) = False"
| "is_detail_link (Comment s) = False"

fun is_img :: "node \<Rightarrow> bool" where
  "is_img (Tag nm attrs contents) = (nm = ''img'')"
| "is_img (NavigableString s) = False"
| "is_img (Comment s) = False"

section \<open>The scraper\<close>

definition base_url :: string where
  "base_url = ''https://sourcing.alibaba.com''"

subsection \<open>\<^verbatim>\<open>extract_rfq_id_from_url\<close>\<close>

definition extract_rfq_id_from_url :: "string \<Rightarrow> string" where
  "extract_rfq_id_from_url url =
     (if str_in ''p=ID1'' url then
        let start = py_find url ''p=ID1'' 0 + 2;
            end0 = py_find url ''&'' start;
            end1 = (if end0 = -1 then int (length url) else end0)
        in if start + 10 \<le> int (length url) then slice url start (start + 10)
           else slice url start end1
      else ''N/A'')"

subsection \<open>\<^verbatim>\<open>clean_text\<close>\<close>

text \<open>\<^verbatim>\<open>re.sub(r'\s+', ' ', text)\<close>: \<open>in_run\<close> says the previous character was whitespace.\<close>

fun sub_spaces :: "bool \<Rightarrow> string \<Rightarrow> string" where
  "sub_spaces in_run [] = []"
| "sub_spaces in_run (c # cs) =
     (if isspace c then (if in_run then sub_spaces True cs else CHR '' '' # sub_spaces True cs)
      else c # sub_spaces False cs)"

definition csv_safe :: "char \<Rightarrow> bool" where
  "csv_safe c = (isword c \<or> isspace c \<or> c \<in> set ''-.,()/&%#@!?:;'')"

definition clean_text :: "string \<Rightarrow> string" where
  "clean_text text =
     (if text = [] then [] else filter csv_safe (sub_spaces False (strip text)))"

subsection \<open>\<^verbatim>\<open>get_rfq_containers\<close>\<close>

text \<open>The walk from a link towards the root, \<open>n\<close> levels at most.\<close>

fun climb :: "node \<Rightarrow> nat \<Rightarrow> element \<Rightarrow> element" where
  "climb soup 0 container = container"
| "climb soup (Suc n) container =
     (case parent soup container of
        None \<Rightarrow> container
      | Some par \<Rightarrow>
          if length (get_text (snd par)) > 100 then climb soup n par else container)"

definition element_in :: "element \<Rightarrow> element list \<Rightarrow> bool" where
  "element_in x xs = list_ex (py_eq x) xs"

fun collect :: "node \<Rightarrow> element list \<Rightarrow> element list \<Rightarrow> element list" where
  "collect soup [] rfq_elements = rfq_elements"
| "collect soup (link # links) rfq_elements =
     (let container = climb soup 5 link
      in collect soup links
           (if \<not> element_in container rfq_elements then rfq_elements @ [container]
            else rfq_elements))"

definition detail_links :: "node \<Rightarrow> element list" where
  "detail_links soup = filter (\<lambda>el. is_detail_link (snd el)) (descendants soup)"

definition rfq_elements_of :: "node \<Rightarrow> element list" where
  "rfq_elements_of soup = collect soup (detail_links soup) []"

definition get_rfq_containers :: "node \<Rightarrow> element list" where
  "get_rfq_containers soup = take 50 (rfq_elements_of soup)"

subsection \<open>\<^verbatim>\<open>extract_rfq_data_improved\<close>\<close>

text \<open>The dictionary \<^verbatim>\<open>rfq_data\<close>: its sixteen keys are the fields of the record.\<close>

record rfq_data =
  rfq_id :: string
  title :: string
  buyer_name :: string
  buyer_image :: string
  inquiry_time :: string
  quotes_left :: string
  country :: string
  quantity_required :: string
  email_confirmed :: string
  experienced_buyer :: string
  complete_order_via_rfq :: string
  typical_replies :: string
  interactive_user :: string
  inquiry_url :: string
  inquiry_date :: string
  scraping_date :: string

definition initial_rfq_data :: "string \<Rightarrow> rfq_data" where
  "initial_rfq_data current_date =
     \<lparr> rfq_id = ''N/A'', title = ''N/A'', buyer_name = ''N/A'', buyer_image = ''N/A'',
       inquiry_time = ''N/A'', quotes_left = ''N/A'', country = ''United Arab Emirates'',
       quantity_required = ''N/A'', email_confirmed = ''No'', experienced_buyer = ''No'',
       complete_order_via_rfq = ''No'', typical_replies = ''No'', interactive_user = ''No'',
       inquiry_url = ''N/A'', inquiry_date = current_date, scraping_date = current_date \<rparr>"

text \<open>The errors of the model: what \<^verbatim>\<open>urljoin\<close> and the browser can raise.\<close>

datatype error = ValueError | WebDriverException

text \<open>The patterns, in the order the source lists them.\<close>

fun seq :: "regex list \<Rightarrow> regex" where
  "seq [] = Str []"
| "seq [r] = r"
| "seq (r # rs) = Seq r (seq rs)"

fun alts :: "string list \<Rightarrow> regex" where
  "alts [] = Str []"
| "alts [w] = Str w"
| "alts (w # ws) = Alt (Str w) (alts ws)"

definition upper_AZ :: atom where "upper_AZ = In [Range (CHR ''A'') (CHR ''Z'')]"
definition lower_az :: atom where "lower_az = In [Range (CHR ''a'') (CHR ''z'')]"
definition spaces1 :: regex where "spaces1 = Plus (In [Space])"
definition digits1 :: regex where "digits1 = Plus (In [Digit])"
definition not_sep :: atom where "not_sep = NotIn [One (CHR '',''), One (CHR 0x0A), One (CHR 0x0D)]"

definition name_patterns :: "regex list" where
  "name_patterns =
     [Group (seq [Atom upper_AZ, Plus lower_az, spaces1, Atom upper_AZ, Plus lower_az,
                  Opt (seq [spaces1, Atom upper_AZ, Plus lower_az])]),
      Group (seq [Atom upper_AZ, Plus lower_az, spaces1, Plus upper_AZ, Star lower_az])]"

definition exclude_words :: "string list" where
  "exclude_words = [''Posted'', ''Quote'', ''United'', ''Arab'', ''Emirates'', ''Date'',
     ''Quantity'', ''Required'', ''Email'', ''Confirmed'', ''Quotes'', ''Left'', ''Before'',
     ''Piece'']"

definition time_units :: regex where
  "time_units = alts [''hour'', ''hours'', ''minute'', ''minutes'', ''day'', ''days'']"

definition time_patterns :: "regex list" where
  "time_patterns =
     [Group (seq [digits1, spaces1, time_units, spaces1, alts [''ago'', ''before'']]),
      Group (seq [digits1, spaces1, time_units])]"

definition quotes_patterns :: "regex list" where
  "quotes_patterns =
     [seq [Str ''Quote'', Opt (Atom (Lit (CHR ''s''))), spaces1, Str ''Left'', spaces1,
           Group digits1],
      seq [Group digits1, spaces1, Str ''quote'', Opt (Atom (In [One (CHR ''s'')])), spaces1,
           Str ''left'']]"

definition quantity_patterns :: "regex list" where
  "quantity_patterns =
     [seq [Str ''Quantity'', spaces1, Str ''Required:'', Star (In [Space]),
           Group (seq [digits1, Star not_sep,
                       alts [''Piece'', ''Unit'', ''Box'', ''Carton'', ''Meter'', ''Kilogram'',
                             ''Ton'', ''Liter''],
                       Star not_sep])],
      Group (seq [digits1, Star (In [Space]),
                  alts [''Piece'', ''Pieces'', ''Unit'', ''Units'', ''Box'', ''Boxes'', ''Carton'',
                        ''Cartons'', ''Meter'', ''Meters'', ''Kilogram'', ''Ton'', ''Liter''],
                  Star not_sep])]"

text \<open>
  The title and the URL. \<^verbatim>\<open>urljoin\<close> belongs to the standard library and is a parameter;
  when it raises, control leaves the \<^verbatim>\<open>try\<close> block with the dictionary as it is then.
\<close>

definition find_title_link :: "node \<Rightarrow> node option" where
  "find_title_link container = List.find is_detail_link (map snd (descendants container))"

definition extract_title_url ::
  "(string \<Rightarrow> string \<Rightarrow> error + string) \<Rightarrow> node \<Rightarrow> rfq_data \<Rightarrow> rfq_data \<times> error option" where
  "extract_title_url urljoin container d =
     (case find_title_link container of
        None \<Rightarrow> (d, None)
      | Some title_link \<Rightarrow>
          let t = clean_text (get_text title_link);
              d1 = (if length t > 10 then d\<lparr>title := t\<rparr> else d)
          in (case get_attr title_link ''href'' of
                None \<Rightarrow> (d1, None)
              | Some href \<Rightarrow>
                  if href = [] then (d1, None)
                  else if prefix ''/'' href then
                    (case urljoin base_url href of
                       Inl e \<Rightarrow> (d1, Some e)
                     | Inr href' \<Rightarrow>
                         (d1\<lparr>inquiry_url := href', rfq_id := extract_rfq_id_from_url href'\<rparr>, None))
                  else (d1\<lparr>inquiry_url := href, rfq_id := extract_rfq_id_from_url href\<rparr>, None)))"

text \<open>The buyer's name: the first acceptable match of the first pattern that has one.\<close>

definition name_ok :: "string \<Rightarrow> bool" where
  "name_ok m = (\<not> list_ex (\<lambda>word. str_in word m) exclude_words \<and> length m > 5)"

fun extract_buyer_name :: "regex list \<Rightarrow> string \<Rightarrow> rfq_data \<Rightarrow> rfq_data" where
  "extract_buyer_name [] container_text d = d"
| "extract_buyer_name (pattern # patterns) container_text d =
     (let d1 = (case List.find name_ok (re_findall pattern container_text) of
                  None \<Rightarrow> d
                | Some m \<Rightarrow> d\<lparr>buyer_name := strip m\<rparr>)
      in if buyer_name d1 \<noteq> ''N/A'' then d1
         else extract_buyer_name patterns container_text d1)"

text \<open>The buyer's image: the first \<^verbatim>\<open>img\<close> whose \<^verbatim>\<open>src\<close> looks like an avatar.\<close>

definition img_src :: "node \<Rightarrow> string" where
  "img_src img = (case get_attr img ''src'' of None \<Rightarrow> [] | Some src \<Rightarrow> src)"

definition is_avatar :: "string \<Rightarrow> bool" where
  "is_avatar src =
     ((str_in ''50x50'' src \<or> str_in ''avatar'' (lower src)) \<and> str_in ''alicdn.com'' src)"

definition extract_buyer_image :: "node \<Rightarrow> rfq_data \<Rightarrow> rfq_data" where
  "extract_buyer_image container d =
     (case List.find is_avatar
             (map img_src (filter is_img (map snd (descendants container)))) of
        None \<Rightarrow> d
      | Some src \<Rightarrow> d\<lparr>buyer_image := (if prefix ''//'' src then ''https:'' @ src else src)\<rparr>)"

text \<open>Group 1 of the first pattern that matches, case-insensitively.\<close>

fun first_search :: "regex list \<Rightarrow> string \<Rightarrow> string option" where
  "first_search [] container_text = None"
| "first_search (pattern # patterns) container_text =
     (case re_search True pattern container_text of
        Some g \<Rightarrow> Some g
      | None \<Rightarrow> first_search patterns container_text)"

definition extract_time :: "string \<Rightarrow> rfq_data \<Rightarrow> rfq_data" where
  "extract_time container_text d =
     (case first_search time_patterns container_text of
        None \<Rightarrow> d | Some g \<Rightarrow> d\<lparr>inquiry_time := g\<rparr>)"

definition extract_quotes :: "string \<Rightarrow> rfq_data \<Rightarrow> rfq_data" where
  "extract_quotes container_text d =
     (case first_search quotes_patterns container_text of
        None \<Rightarrow> d | Some g \<Rightarrow> d\<lparr>quotes_left := g\<rparr>)"

text \<open>The quantity: a match of 100 characters or more is passed over.\<close>

fun extract_quantity :: "regex list \<Rightarrow> string \<Rightarrow> rfq_data \<Rightarrow> rfq_data" where
  "extract_quantity [] container_text d = d"
| "extract_quantity (pattern # patterns) container_text d =
     (case re_search True pattern container_text of
        None \<Rightarrow> extract_quantity patterns container_text d
      | Some g \<Rightarrow>
          let quantity = clean_text g
          in if length quantity < 100 then d\<lparr>quantity_required := quantity\<rparr>
             else extract_quantity patterns container_text d)"

definition extract_flags :: "string \<Rightarrow> rfq_data \<Rightarrow> rfq_data" where
  "extract_flags container_text d =
     (let text_lower = lower container_text;
          d1 = (if str_in ''email confirmed'' text_lower then d\<lparr>email_confirmed := ''Yes''\<rparr> else d);
          d2 = (if str_in ''typically replies'' text_lower then d1\<lparr>typical_replies := ''Yes''\<rparr> else d1);
          d3 = (if str_in ''interactive user'' text_lower then d2\<lparr>interactive_user := ''Yes''\<rparr> else d2)
      in if str_in ''experienced buyer'' text_lower then d3\<lparr>experienced_buyer := ''Yes''\<rparr> else d3)"

text \<open>
  The body of the \<^verbatim>\<open>try\<close> block: the dictionary it leaves, and the exception if one
  was raised.
\<close>

definition try_extract ::
  "(string \<Rightarrow> string \<Rightarrow> error + string) \<Rightarrow> node \<Rightarrow> rfq_data \<Rightarrow> rfq_data \<times> error option" where
  "try_extract urljoin container d =
     (let container_text = get_text container
      in case extract_title_url urljoin container d of
           (d1, Some e) \<Rightarrow> (d1, Some e)
         | (d1, None) \<Rightarrow>
             (extract_flags container_text
               (extract_quantity quantity_patterns container_text
                 (extract_quotes container_text
                   (extract_time container_text
                     (extract_buyer_image container
                       (extract_buyer_name name_patterns container_text d1))))), None))"

text \<open>\<^verbatim>\<open>except Exception\<close> prints and falls through to \<^verbatim>\<open>return rfq_data\<close>.\<close>

definition extract_rfq_data_improved ::
  "(string \<Rightarrow> string \<Rightarrow> error + string) \<Rightarrow> string \<Rightarrow> node \<Rightarrow> rfq_data" where
  "extract_rfq_data_improved urljoin current_date container =
     fst (try_extract urljoin container (initial_rfq_data current_date))"

subsection \<open>The collaborators\<close>

text \<open>
  What the scraper calls and does not define: \<^verbatim>\<open>urljoin\<close>; the clock, as the string
  \<^verbatim>\<open>datetime.now().strftime('%d-%m-%Y')\<close> returns while container \<open>i\<close> of the \<open>k\<close>-th page
  load is extracted; the browser, as the parsed \<^verbatim>\<open>page_source\<close> of the \<open>k\<close>-th page load
  (or the exception raised on the way to it); and whether \<^verbatim>\<open>setup_selenium\<close> succeeds.
\<close>

record env =
  urljoin_of :: "string \<Rightarrow> string \<Rightarrow> error + string"
  strftime_now :: "nat \<Rightarrow> nat \<Rightarrow> string"
  page_source :: "nat \<Rightarrow> string \<Rightarrow> error + node"
  setup_selenium :: bool

text \<open>
  The state of the scraper object: \<^verbatim>\<open>seen_urls\<close>, and the page loads so far, each with
  the page number and URL it was asked for and the number of items its closing message
  reports (none when the load failed).
\<close>

record scraper =
  seen_urls :: "string set"
  visits :: "(int \<times> string \<times> nat) list"

subsection \<open>\<^verbatim>\<open>scrape_page_with_selenium\<close>\<close>

definition skip_item :: "rfq_data \<Rightarrow> string set \<Rightarrow> string set \<Rightarrow> bool" where
  "skip_item d processed_urls seen =
     (title d = ''N/A'' \<or> length (title d) < 10 \<or>
      inquiry_url d \<in> processed_urls \<or> inquiry_url d \<in> seen)"

definition skip_words :: "string list" where
  "skip_words = [''buy access'', ''submit buying'', ''join free'', ''sign in'']"

definition is_promotional :: "rfq_data \<Rightarrow> bool" where
  "is_promotional d = list_ex (\<lambda>skip_word. str_in skip_word (lower (title d))) skip_words"

fun process_containers ::
  "env \<Rightarrow> nat \<Rightarrow> nat \<Rightarrow> element list \<Rightarrow> rfq_data list \<Rightarrow> string set \<Rightarrow> string set
     \<Rightarrow> rfq_data list \<times> string set" where
  "process_containers env k i [] page_data processed_urls seen = (page_data, seen)"
| "process_containers env k i (container # rest) page_data processed_urls seen =
     (let d = extract_rfq_data_improved (urljoin_of env) (strftime_now env k i) (snd container)
      in if skip_item d processed_urls seen
         then process_containers env k (Suc i) rest page_data processed_urls seen
         else if is_promotional d
         then process_containers env k (Suc i) rest page_data processed_urls seen
         else if length (page_data @ [d]) \<ge> 20
         then (page_data @ [d], insert (inquiry_url d) seen)
         else process_containers env k (Suc i) rest (page_data @ [d])
                (insert (inquiry_url d) processed_urls) (insert (inquiry_url d) seen))"

definition scrape_page_with_selenium ::
  "env \<Rightarrow> scraper \<Rightarrow> string \<Rightarrow> int \<Rightarrow> rfq_data list \<times> scraper" where
  "scrape_page_with_selenium env sc url page_num =
     (case page_source env (length (visits sc)) url of
        Inl e \<Rightarrow> ([], sc\<lparr>visits := visits sc @ [(page_num, url, 0)]\<rparr>)
      | Inr soup \<Rightarrow>
          (case process_containers env (length (visits sc)) 0 (get_rfq_containers soup)
                  [] {} (seen_urls sc) of
             (page_data, seen) \<Rightarrow>
               (page_data,
                \<lparr>seen_urls = seen,
                 visits = visits sc @ [(page_num, url, length page_data)]\<rparr>)))"

subsection \<open>\<^verbatim>\<open>scrape_multiple_pages\<close>\<close>

definition page_url :: "string \<Rightarrow> int \<Rightarrow> string" where
  "page_url base page =
     (if page = 1 then base
      else if str_in ''?'' base then base @ ''&page='' @ str_int page
      else base @ ''?page='' @ str_int page)"

definition alt_url :: "string \<Rightarrow> int \<Rightarrow> string" where
  "alt_url base page =
     replace ''&recently=Y'' (''&recently=Y&startIndex='' @ str_int ((page - 1) * 20)) base"

fun pages_loop ::
  "env \<Rightarrow> string \<Rightarrow> int list \<Rightarrow> rfq_data list \<Rightarrow> scraper \<Rightarrow> rfq_data list \<times> scraper" where
  "pages_loop env base [] all_data sc = (all_data, sc)"
| "pages_loop env base (page # pages) all_data sc =
     (case scrape_page_with_selenium env sc (page_url base page) page of
        (page_data, sc1) \<Rightarrow>
          if page_data = [] then
            (case (if alt_url base page \<noteq> page_url base page
                   then scrape_page_with_selenium env sc1 (alt_url base page) page
                   else (page_data, sc1)) of
               (page_data2, sc2) \<Rightarrow>
                 if page_data2 = [] then (all_data, sc2)
                 else pages_loop env base pages (all_data @ page_data2) sc2)
          else pages_loop env base pages (all_data @ page_data) sc1)"

definition scrape_multiple_pages ::
  "env \<Rightarrow> scraper \<Rightarrow> string \<Rightarrow> int \<Rightarrow> rfq_data list \<times> scraper" where
  "scrape_multiple_pages env sc base max_pages =
     (if \<not> setup_selenium env then ([], sc)
      else pages_loop env base [1..max_pages] [] sc)"

text \<open>The scraper as \<^verbatim>\<open>__init__\<close> leaves it.\<close>

definition new_scraper :: scraper where
  "new_scraper = \<lparr>seen_urls = {}, visits = []\<rparr>"

section \<open>\<^verbatim>\<open>urllib.parse.urljoin\<close>\<close>

text \<open>
  The library function as CPython defines it, for the calls the scraper makes: the base is
  \<open>scheme://host\<close> with nothing after the host, and the reference starts with a slash.
  Tabs and line breaks are dropped from the reference; a reference \<open>//host/...\<close> keeps its
  own host, and a host with an unmatched square bracket raises \<^verbatim>\<open>ValueError\<close>
  (\<^verbatim>\<open>Invalid IPv6 URL\<close>); otherwise the path is cleared of empty and dot segments and put
  after the base.
\<close>

fun split_on :: "char \<Rightarrow> string \<Rightarrow> string list" where
  "split_on sep [] = [[]]"
| "split_on sep (c # cs) =
     (if c = sep then [] # split_on sep cs
      else case split_on sep cs of
             [] \<Rightarrow> [[c]]
           | w # ws \<Rightarrow> (c # w) # ws)"

fun join :: "char \<Rightarrow> string list \<Rightarrow> string" where
  "join sep [] = []"
| "join sep [w] = w"
| "join sep (w # ws) = w @ sep # join sep ws"

definition cut :: "char \<Rightarrow> string \<Rightarrow> string \<times> string" where
  "cut sep s = (takeWhile (\<lambda>c. c \<noteq> sep) s, drop 1 (dropWhile (\<lambda>c. c \<noteq> sep) s))"

fun resolve_dots :: "string list \<Rightarrow> string list \<Rightarrow> string list" where
  "resolve_dots resolved [] = resolved"
| "resolve_dots resolved (seg # segs) =
     (if seg = ''..'' then resolve_dots (butlast resolved) segs
      else if seg = ''.'' then resolve_dots resolved segs
      else resolve_dots (resolved @ [seg]) segs)"

definition resolve_path :: "string \<Rightarrow> string" where
  "resolve_path path =
     (let segments = (case split_on (CHR ''/'') path of
                        [] \<Rightarrow> []
                      | [x] \<Rightarrow> [x]
                      | x # xs \<Rightarrow> x # filter (\<lambda>seg. seg \<noteq> []) (butlast xs) @ [last xs]);
          resolved = resolve_dots [] segments;
          joined = join (CHR ''/'')
                     (if segments \<noteq> [] \<and> (last segments = ''.'' \<or> last segments = ''..'')
                      then resolved @ [[]] else resolved)
      in if joined = [] then ''/'' else joined)"

definition split_params :: "string \<Rightarrow> string \<times> string" where
  "split_params path =
     (let after_slash = length path - length (takeWhile (\<lambda>c. c \<noteq> CHR ''/'') (rev path));
          last_segment = drop after_slash path
      in if CHR '';'' \<in> set last_segment
         then (take after_slash path @ fst (cut (CHR '';'') last_segment),
               snd (cut (CHR '';'') last_segment))
         else (path, []))"

definition unparse :: "string \<Rightarrow> string \<Rightarrow> string \<Rightarrow> string \<Rightarrow> string" where
  "unparse path params query fragment =
     (let url = (if params \<noteq> [] then path @ CHR '';'' # params else path)
      in (if url \<noteq> [] \<and> \<not> prefix ''/'' url then CHR ''/'' # url else url) @
         (if query \<noteq> [] then CHR ''?'' # query else []) @
         (if fragment \<noteq> [] then CHR ''#'' # fragment else []))"

definition urljoin_py :: "string \<Rightarrow> string \<Rightarrow> error + string" where
  "urljoin_py base url =
     (let u = filter (\<lambda>c. c \<notin> set [CHR 0x09, CHR 0x0A, CHR 0x0D]) url;
          delim = (\<lambda>c. c \<in> set ''/?#'');
          netloc = (if prefix ''//'' u then takeWhile (\<lambda>c. \<not> delim c) (drop 2 u) else []);
          rest = (if prefix ''//'' u then dropWhile (\<lambda>c. \<not> delim c) (drop 2 u) else u)
      in if (CHR ''['' \<in> set netloc) \<noteq> (CHR '']'' \<in> set netloc) then Inl ValueError
         else
           let fragment = snd (cut (CHR ''#'') rest);
               query = snd (cut (CHR ''?'') (fst (cut (CHR ''#'') rest)));
               path0 = fst (cut (CHR ''?'') (fst (cut (CHR ''#'') rest)));
               path = fst (split_params path0);
               params = snd (split_params path0)
           in if netloc \<noteq> []
              then Inr (takeWhile (\<lambda>c. c \<noteq> CHR '':'') base @ ''://'' @ netloc @
                        unparse path params query fragment)
              else if path = [] \<and> params = []
              then Inr (base @ unparse [] [] query fragment)
              else Inr (base @ unparse (resolve_path path) params query fragment))"

section \<open>Sample pages\<close>

text \<open>The listing of the scenario: the link, then the text of the card.\<close>

definition scenario_card :: node where
  "scenario_card =
     Tag ''div'' []
       [Tag ''a'' [(''href'', ''/rfq/rfq_detail.htm?p=ID1234567890'')]
          [NavigableString ''Need 200 pieces of packaging film''],
        NavigableString
          ''Posted 3 hours ago... Quotes Left 5... Quantity Required: 200 Pieces... Email Confirmed'']"

text \<open>A card whose link has a host that \<^verbatim>\<open>urljoin\<close> refuses.\<close>

definition broken_link_card :: node where
  "broken_link_card =
     Tag ''div'' []
       [Tag ''a'' [(''href'', ''//[/rfq_detail.htm'')]
          [NavigableString ''Need 200 pieces of packaging film''],
        NavigableString '' Quotes Left 5 Email Confirmed'']"

definition order_flag_card :: node where
  "order_flag_card = Tag ''div'' [] [NavigableString ''Complete Order via RFQ'']"

definition confirmed_card :: node where
  "confirmed_card = Tag ''div'' [] [NavigableString ''Email Confirmed'']"

definition ten_card :: node where
  "ten_card =
     Tag ''div'' []
       [Tag ''a'' [(''href'', ''/rfq/rfq_detail.htm?p=ID1'')] [NavigableString ''Buy 5 pens'']]"

text \<open>A page with one listing, long enough for the walk from its link to reach the root.\<close>

definition listing_page :: node where
  "listing_page =
     Tag ''[document]'' []
       [Tag ''div'' []
          [Tag ''a'' [(''href'', ''/rfq/rfq_detail.htm?p=ID1'')]
             [NavigableString ''Need 200 pieces of packaging film''],
           NavigableString (replicate 101 (CHR ''.''))]]"

text \<open>A browser that serves the listing on the first load and fails afterwards.\<close>

definition demo_env :: env where
  "demo_env =
     \<lparr>urljoin_of = urljoin_py,
      strftime_now = (\<lambda>k i. ''03-11-2026''),
      page_source = (\<lambda>k url. if k = 0 then Inr listing_page else Inl WebDriverException),
      setup_selenium = True\<rparr>"

definition demo_base :: string where
  "demo_base = ''https://sourcing.alibaba.com/rfq/rfq_search_list.htm''"

definition promo_card :: node where
  "promo_card =
     Tag ''div'' []
       [Tag ''a'' [(''href'', ''/rfq/rfq_detail.htm?p=ID2'')]
          [NavigableString ''Sign In to see more requests'']]"

text \<open>Two links in one block of text: the walk from either ends at the root.\<close>

definition link_x :: node where
  "link_x = Tag ''a'' [(''href'', ''rfq_detail.htm?x'')] []"

definition link_y :: node where
  "link_y = Tag ''a'' [(''href'', ''rfq_detail.htm?y'')] []"

definition twin_page :: node where
  "twin_page =
     Tag ''[document]'' []
       [Tag ''div'' [] [link_x, link_y, NavigableString (replicate 101 (CHR ''.''))]]"

text \<open>The same block after a list of fifty bare links, each a container of its own.\<close>

definition crowded_page :: node where
  "crowded_page =
     Tag ''[document]'' []
       [Tag ''ul'' []
          (map (\<lambda>c. Tag ''a'' [(''href'', c # ''rfq_detail.htm'')] [])
               ''abcdefghijklmnopqrstuvwxyzABCDEFGHIJKLMNOPQRSTUVWX''),
        Tag ''div'' [] [link_x, link_y, NavigableString (replicate 101 (CHR ''.''))]]"

section \<open>Notions used in the statements\<close>

text \<open>What every accepted record satisfies.\<close>

definition kept :: "rfq_data \<Rightarrow> bool" where
  "kept d = (title d \<noteq> ''N/A'' \<and> 10 < length (title d) \<and> \<not> is_promotional d)"

text \<open>The value of a flag after the flag step: set by the phrase, otherwise left as it was.\<close>

definition flag_of :: "string \<Rightarrow> string \<Rightarrow> string \<Rightarrow> string" where
  "flag_of phrase t old = (if str_in phrase (lower t) then ''Yes'' else old)"

text \<open>
  What holds of the page loads \<open>E\<close> that one run over the pages \<open>ps\<close> adds: they are loads
  of those pages; a page whose loads all gave nothing is the last page loaded; the pages
  loaded are an initial stretch of \<open>ps\<close>; a page whose alternate URL is its own URL is
  loaded once; and every load asks for the page's URL or its alternate URL.
\<close>

definition trace_ok :: "string \<Rightarrow> int list \<Rightarrow> (int \<times> string \<times> nat) list \<Rightarrow> bool" where
  "trace_ok base ps E =
     (fst ` set E \<subseteq> set ps \<and>
      (\<forall>p\<in>fst ` set E. (\<forall>e\<in>set E. fst e = p \<longrightarrow> snd (snd e) = 0) \<longrightarrow> (\<forall>e\<in>set E. fst e \<le> p)) \<and>
      (\<forall>p\<in>fst ` set E. \<forall>q\<in>set ps. q \<le> p \<longrightarrow> q \<in> fst ` set E) \<and>
      (\<forall>p. alt_url base p = page_url base p \<longrightarrow> length (filter (\<lambda>e. fst e = p) E) \<le> 1) \<and>
      (\<forall>e\<in>set E. fst (snd e) = page_url base (fst e) \<or> fst (snd e) = alt_url base (fst e)))"

section \<open>The extraction steps\<close>

lemma extract_buyer_name_frame: "\<exists>v. extract_buyer_name ps t d = d\<lparr>buyer_name := v\<rparr>"
proof (induction ps arbitrary: d)
  case Nil
  have "d = d\<lparr>buyer_name := buyer_name d\<rparr>" by simp
  then show ?case by (metis extract_buyer_name.simps(1))
next
  case (Cons p ps)
  show ?case
  proof (cases "List.find name_ok (re_findall p t)")
    case None
    then show ?thesis using Cons[of d] by (auto simp: Let_def intro: exI[of _ "buyer_name d"])
  next
    case (Some m)
    show ?thesis
    proof (cases "strip m = ''N/A''")
      case True
      obtain v where "extract_buyer_name ps t (d\<lparr>buyer_name := strip m\<rparr>) = d\<lparr>buyer_name := strip m\<rparr>\<lparr>buyer_name := v\<rparr>"
        using Cons[of "d\<lparr>buyer_name := strip m\<rparr>"] by blast
      then show ?thesis using Some True by (auto simp: Let_def)
    next
      case False
      then show ?thesis using Some by (auto simp: Let_def)
    qed
  qed
qed

lemma extract_buyer_image_frame: "\<exists>v. extract_buyer_image c d = d\<lparr>buyer_image := v\<rparr>"
  unfolding extract_buyer_image_def
  by (cases "List.find is_avatar (map img_src (filter is_img (map snd (descendants c))))")
     (auto intro: exI[of _ "buyer_image d"])

lemma extract_time_frame: "\<exists>v. extract_time t d = d\<lparr>inquiry_time := v\<rparr>"
  unfolding extract_time_def
  by (cases "first_search time_patterns t") (auto intro: exI[of _ "inquiry_time d"])

lemma extract_quotes_frame: "\<exists>v. extract_quotes t d = d\<lparr>quotes_left := v\<rparr>"
  unfolding extract_quotes_def
  by (cases "first_search quotes_patterns t") (auto intro: exI[of _ "quotes_left d"])

lemma extract_quantity_frame: "\<exists>v. extract_quantity ps t d = d\<lparr>quantity_required := v\<rparr>"
proof (induction ps)
  case Nil
  show ?case by (auto intro: exI[of _ "quantity_required d"])
next
  case (Cons p ps)
  then show ?case by (cases "re_search True p t") (auto simp: Let_def)
qed

lemma text_steps_frame:
  "\<exists>a b c' e f.
     extract_quantity quantity_patterns t
       (extract_quotes t (extract_time t (extract_buyer_image c
          (extract_buyer_name name_patterns t d)))) =
     d\<lparr>buyer_name := a, buyer_image := b, inquiry_time := c', quotes_left := e,
       quantity_required := f\<rparr>"
proof -
  obtain a where a: "extract_buyer_name name_patterns t d = d\<lparr>buyer_name := a\<rparr>"
    using extract_buyer_name_frame by blast
  obtain b where b: "extract_buyer_image c (d\<lparr>buyer_name := a\<rparr>) = d\<lparr>buyer_name := a\<rparr>\<lparr>buyer_image := b\<rparr>"
    using extract_buyer_image_frame by blast
  obtain c' where c: "extract_time t (d\<lparr>buyer_name := a, buyer_image := b\<rparr>) =
      d\<lparr>buyer_name := a, buyer_image := b\<rparr>\<lparr>inquiry_time := c'\<rparr>"
    using extract_time_frame by blast
  obtain e where e: "extract_quotes t (d\<lparr>buyer_name := a, buyer_image := b, inquiry_time := c'\<rparr>) =
      d\<lparr>buyer_name := a, buyer_image := b, inquiry_time := c'\<rparr>\<lparr>quotes_left := e\<rparr>"
    using extract_quotes_frame by blast
  obtain f where f: "extract_quantity quantity_patterns t
        (d\<lparr>buyer_name := a, buyer_image := b, inquiry_time := c', quotes_left := e\<rparr>) =
      d\<lparr>buyer_name := a, buyer_image := b, inquiry_time := c', quotes_left := e\<rparr>\<lparr>quantity_required := f\<rparr>"
    using extract_quantity_frame by blast
  have "extract_quantity quantity_patterns t
       (extract_quotes t (extract_time t (extract_buyer_image c
          (extract_buyer_name name_patterns t d)))) =
     d\<lparr>buyer_name := a, buyer_image := b, inquiry_time := c', quotes_left := e,
       quantity_required := f\<rparr>"
    using a b c e f by simp
  then show ?thesis by blast
qed

lemma extract_flags_eq:
  "extract_flags t d =
     d\<lparr>email_confirmed := flag_of ''email confirmed'' t (email_confirmed d),
       typical_replies := flag_of ''typically replies'' t (typical_replies d),
       interactive_user := flag_of ''interactive user'' t (interactive_user d),
       experienced_buyer := flag_of ''experienced buyer'' t (experienced_buyer d)\<rparr>"
  by (simp add: extract_flags_def flag_of_def Let_def)

lemma extract_title_url_fst:
  "fst (extract_title_url uj c d) =
     d\<lparr>title := title (fst (extract_title_url uj c d)),
       inquiry_url := inquiry_url (fst (extract_title_url uj c d)),
       rfq_id := rfq_id (fst (extract_title_url uj c d))\<rparr>"
  by (simp add: extract_title_url_def Let_def split: option.split sum.split)

lemma extract_title_url_title:
  "title (fst (extract_title_url uj c d)) = title d \<or>
   10 < length (title (fst (extract_title_url uj c d)))"
  by (simp add: extract_title_url_def Let_def split: option.split sum.split)

lemma extract_title_url_raise:
  "snd (extract_title_url uj c d) = Some e \<Longrightarrow>
     fst (extract_title_url uj c d) = d\<lparr>title := title (fst (extract_title_url uj c d))\<rparr>"
  by (auto simp add: extract_title_url_def Let_def split: option.splits sum.splits if_splits)

lemma try_extract_raise:
  assumes "snd (try_extract uj c d) = Some e"
  shows "fst (try_extract uj c d) = d\<lparr>title := title (fst (try_extract uj c d))\<rparr>"
    and "title (fst (try_extract uj c d)) = title d \<or> 10 < length (title (fst (try_extract uj c d)))"
proof -
  obtain d1 x where x: "extract_title_url uj c d = (d1, x)" by (cases "extract_title_url uj c d")
  from assms x have xe: "x = Some e"
    by (cases x) (auto simp: try_extract_def Let_def)
  then have f: "fst (try_extract uj c d) = d1" using x by (simp add: try_extract_def Let_def)
  from extract_title_url_raise[of uj c d e] x xe
  show "fst (try_extract uj c d) = d\<lparr>title := title (fst (try_extract uj c d))\<rparr>"
    using f by simp
  from extract_title_url_title[of uj c d] x
  show "title (fst (try_extract uj c d)) = title d \<or> 10 < length (title (fst (try_extract uj c d)))"
    using f by simp
qed

lemma try_extract_ok:
  assumes "snd (try_extract uj c d) = None"
  shows "\<exists>a b c' e f.
     fst (try_extract uj c d) =
       extract_flags (get_text c)
         ((fst (extract_title_url uj c d))\<lparr>buyer_name := a, buyer_image := b, inquiry_time := c',
            quotes_left := e, quantity_required := f\<rparr>)"
proof -
  obtain d1 x where x: "extract_title_url uj c d = (d1, x)" by (cases "extract_title_url uj c d")
  from assms x have xe: "x = None"
    by (cases x) (auto simp: try_extract_def Let_def)
  obtain a b c' e f where
    "extract_quantity quantity_patterns (get_text c)
       (extract_quotes (get_text c) (extract_time (get_text c) (extract_buyer_image c
          (extract_buyer_name name_patterns (get_text c) d1)))) =
     d1\<lparr>buyer_name := a, buyer_image := b, inquiry_time := c', quotes_left := e,
       quantity_required := f\<rparr>"
    using text_steps_frame by blast
  then have "fst (try_extract uj c d) =
       extract_flags (get_text c)
         ((fst (extract_title_url uj c d))\<lparr>buyer_name := a, buyer_image := b, inquiry_time := c',
            quotes_left := e, quantity_required := f\<rparr>)"
    using x xe by (simp add: try_extract_def Let_def)
  then show ?thesis by blast
qed

lemma try_extract_title:
  "title (fst (try_extract uj c d)) = title d \<or> 10 < length (title (fst (try_extract uj c d)))"
proof (cases "snd (try_extract uj c d)")
  case None
  from try_extract_ok[OF None] obtain a b c' e f where
    "fst (try_extract uj c d) =
       extract_flags (get_text c)
         ((fst (extract_title_url uj c d))\<lparr>buyer_name := a, buyer_image := b, inquiry_time := c',
            quotes_left := e, quantity_required := f\<rparr>)" by blast
  then have "title (fst (try_extract uj c d)) = title (fst (extract_title_url uj c d))"
    by (simp add: extract_flags_eq)
  then show ?thesis using extract_title_url_title[of uj c d] by simp
next
  case (Some e)
  then show ?thesis using try_extract_raise(2) by blast
qed

lemma extract_title_shape:
  "title (extract_rfq_data_improved uj date c) = ''N/A'' \<or>
   10 < length (title (extract_rfq_data_improved uj date c))"
  using try_extract_title[of uj c "initial_rfq_data date"]
  by (simp add: extract_rfq_data_improved_def initial_rfq_data_def)

section \<open>The loops\<close>

lemma not_skipped_kept:
  assumes "\<not> skip_item (extract_rfq_data_improved uj date c) pu seen"
    and "\<not> is_promotional (extract_rfq_data_improved uj date c)"
  shows "kept (extract_rfq_data_improved uj date c)"
  using assms extract_title_shape[of uj date c] by (auto simp: kept_def skip_item_def)

lemma process_containers_inv:
  assumes "process_containers env k i cs pd pu seen = (pd', seen')"
  shows "\<exists>new. pd' = pd @ new \<and> distinct (map inquiry_url new) \<and>
           set (map inquiry_url new) \<inter> seen = {} \<and>
           seen' = seen \<union> set (map inquiry_url new) \<and> (\<forall>d\<in>set new. kept d)"
  using assms
proof (induction cs arbitrary: i pd pu seen)
  case Nil
  then show ?case by simp
next
  case (Cons c cs)
  define d where "d = extract_rfq_data_improved (urljoin_of env) (strftime_now env k i) (snd c)"
  have step: "process_containers env k i (c # cs) pd pu seen =
     (if skip_item d pu seen \<or> is_promotional d
      then process_containers env k (Suc i) cs pd pu seen
      else if 20 \<le> length (pd @ [d]) then (pd @ [d], insert (inquiry_url d) seen)
      else process_containers env k (Suc i) cs (pd @ [d])
             (insert (inquiry_url d) pu) (insert (inquiry_url d) seen))"
    by (simp add: d_def Let_def)
  note prem = Cons.prems[unfolded step]
  show ?case
  proof (cases "skip_item d pu seen \<or> is_promotional d")
    case True
    then have "process_containers env k (Suc i) cs pd pu seen = (pd', seen')"
      using prem by simp
    then show ?thesis using Cons.IH by blast
  next
    case False
    then have k: "kept d" and nseen: "inquiry_url d \<notin> seen"
      using not_skipped_kept[of "urljoin_of env" "strftime_now env k i" "snd c" pu seen]
      by (auto simp: d_def skip_item_def)
    show ?thesis
    proof (cases "20 \<le> length (pd @ [d])")
      case True
      then have "pd' = pd @ [d]" "seen' = insert (inquiry_url d) seen"
        using prem False by auto
      then show ?thesis using k nseen by (intro exI[of _ "[d]"]) auto
    next
      case b: False
      then have "process_containers env k (Suc i) cs (pd @ [d]) (insert (inquiry_url d) pu)
                   (insert (inquiry_url d) seen) = (pd', seen')"
        using prem False by auto
      from Cons.IH[OF this] obtain new where new:
        "pd' = (pd @ [d]) @ new" "distinct (map inquiry_url new)"
        "set (map inquiry_url new) \<inter> insert (inquiry_url d) seen = {}"
        "seen' = insert (inquiry_url d) seen \<union> set (map inquiry_url new)"
        "\<forall>d\<in>set new. kept d" by blast
      show ?thesis using new k nseen by (intro exI[of _ "d # new"]) auto
    qed
  qed
qed

lemma scrape_page_inv:
  assumes "scrape_page_with_selenium env sc url pn = (pd, sc')"
  shows "distinct (map inquiry_url pd)"
    and "set (map inquiry_url pd) \<inter> seen_urls sc = {}"
    and "seen_urls sc' = seen_urls sc \<union> set (map inquiry_url pd)"
    and "\<forall>d\<in>set pd. kept d"
    and "visits sc' = visits sc @ [(pn, url, length pd)]"
proof -
  have "distinct (map inquiry_url pd) \<and> set (map inquiry_url pd) \<inter> seen_urls sc = {} \<and>
        seen_urls sc' = seen_urls sc \<union> set (map inquiry_url pd) \<and> (\<forall>d\<in>set pd. kept d) \<and>
        visits sc' = visits sc @ [(pn, url, length pd)]"
  proof (cases "page_source env (length (visits sc)) url")
    case (Inl e)
    then show ?thesis using assms by (auto simp: scrape_page_with_selenium_def)
  next
    case (Inr soup)
    obtain pd0 seen0 where p: "process_containers env (length (visits sc)) 0
        (get_rfq_containers soup) [] {} (seen_urls sc) = (pd0, seen0)"
      by (cases "process_containers env (length (visits sc)) 0
        (get_rfq_containers soup) [] {} (seen_urls sc)")
    then have eq: "pd = pd0" "sc' = \<lparr>seen_urls = seen0, visits = visits sc @ [(pn, url, length pd0)]\<rparr>"
      using assms Inr by (auto simp: scrape_page_with_selenium_def)
    from process_containers_inv[OF p] show ?thesis using eq by auto
  qed
  then show "distinct (map inquiry_url pd)"
    and "set (map inquiry_url pd) \<inter> seen_urls sc = {}"
    and "seen_urls sc' = seen_urls sc \<union> set (map inquiry_url pd)"
    and "\<forall>d\<in>set pd. kept d"
    and "visits sc' = visits sc @ [(pn, url, length pd)]" by blast+
qed

lemma pages_loop_inv:
  assumes "pages_loop env base ps all_data sc = (all', sc')"
    and "distinct (map inquiry_url all_data)"
    and "set (map inquiry_url all_data) \<subseteq> seen_urls sc"
    and "\<forall>d\<in>set all_data. kept d"
  shows "distinct (map inquiry_url all') \<and> set (map inquiry_url all') \<subseteq> seen_urls sc' \<and>
         (\<forall>d\<in>set all'. kept d)"
  using assms
proof (induction ps arbitrary: all_data sc)
  case Nil
  then show ?case by simp
next
  case (Cons p ps)
  obtain pd sc1 where s1: "scrape_page_with_selenium env sc (page_url base p) p = (pd, sc1)"
    by (cases "scrape_page_with_selenium env sc (page_url base p) p")
  note i1 = scrape_page_inv[OF s1]
  show ?case
  proof (cases "pd = []")
    case False
    then have "pages_loop env base ps (all_data @ pd) sc1 = (all', sc')"
      using Cons.prems(1) s1 by simp
    moreover have "distinct (map inquiry_url (all_data @ pd))"
      using Cons.prems(2,3) i1(1,2) by auto
    moreover have "set (map inquiry_url (all_data @ pd)) \<subseteq> seen_urls sc1"
      using Cons.prems(3) i1(3) by auto
    moreover have "\<forall>d\<in>set (all_data @ pd). kept d"
      using Cons.prems(4) i1(4) by auto
    ultimately show ?thesis using Cons.IH by blast
  next
    case True
    obtain pd2 sc2 where s2: "(if alt_url base p \<noteq> page_url base p
                   then scrape_page_with_selenium env sc1 (alt_url base p) p
                   else (pd, sc1)) = (pd2, sc2)"
      by (cases "(if alt_url base p \<noteq> page_url base p
                   then scrape_page_with_selenium env sc1 (alt_url base p) p
                   else (pd, sc1))")
    have i2: "distinct (map inquiry_url pd2) \<and> set (map inquiry_url pd2) \<inter> seen_urls sc1 = {} \<and>
        seen_urls sc2 = seen_urls sc1 \<union> set (map inquiry_url pd2) \<and> (\<forall>d\<in>set pd2. kept d)"
    proof (cases "alt_url base p \<noteq> page_url base p")
      case True
      then have "scrape_page_with_selenium env sc1 (alt_url base p) p = (pd2, sc2)"
        using s2 by simp
      from scrape_page_inv[OF this] show ?thesis by blast
    next
      case False
      then show ?thesis using s2 True by auto
    qed
    have seen1: "seen_urls sc1 = seen_urls sc" using i1(3) True by simp
    show ?thesis
    proof (cases "pd2 = []")
      case True
      then have "all' = all_data" "sc' = sc2"
        using Cons.prems(1) s1 s2 \<open>pd = []\<close> by auto
      then show ?thesis using Cons.prems(2,3,4) i2 seen1 by auto
    next
      case False
      then have "pages_loop env base ps (all_data @ pd2) sc2 = (all', sc')"
        using Cons.prems(1) s1 s2 \<open>pd = []\<close> by auto
      moreover have "distinct (map inquiry_url (all_data @ pd2))"
        using Cons.prems(2,3) i2 seen1 by auto
      moreover have "set (map inquiry_url (all_data @ pd2)) \<subseteq> seen_urls sc2"
        using Cons.prems(3) i2 seen1 by auto
      moreover have "\<forall>d\<in>set (all_data @ pd2). kept d"
        using Cons.prems(4) i2 by auto
      ultimately show ?thesis using Cons.IH by blast
    qed
  qed
qed

lemma run_inv:
  assumes "scrape_multiple_pages env sc base max_pages = (all_data, sc')"
  shows "distinct (map inquiry_url all_data) \<and> set (map inquiry_url all_data) \<subseteq> seen_urls sc' \<and>
         (\<forall>d\<in>set all_data. kept d)"
proof (cases "setup_selenium env")
  case False
  then show ?thesis using assms by (auto simp: scrape_multiple_pages_def)
next
  case True
  then have "pages_loop env base [1..max_pages] [] sc = (all_data, sc')"
    using assms by (simp add: scrape_multiple_pages_def)
  from pages_loop_inv[OF this] show ?thesis by simp
qed

lemma page_step:
  assumes "pages_loop env base (q # rest) all_data sc = (all', sc')"
  shows "\<exists>Eq scq. visits scq = visits sc @ Eq \<and> Eq \<noteq> [] \<and>
     (\<forall>e\<in>set Eq. fst e = q \<and> (fst (snd e) = page_url base q \<or> fst (snd e) = alt_url base q)) \<and>
     (alt_url base q = page_url base q \<longrightarrow> length Eq = 1) \<and>
     ((all' = all_data \<and> sc' = scq \<and> (\<forall>e\<in>set Eq. snd (snd e) = 0)) \<or>
      (\<exists>pdq. (\<exists>e\<in>set Eq. snd (snd e) \<noteq> 0) \<and>
             pages_loop env base rest (all_data @ pdq) scq = (all', sc')))"
proof -
  obtain pd sc1 where s1: "scrape_page_with_selenium env sc (page_url base q) q = (pd, sc1)"
    by (cases "scrape_page_with_selenium env sc (page_url base q) q")
  have v1: "visits sc1 = visits sc @ [(q, page_url base q, length pd)]"
    using scrape_page_inv(5)[OF s1] .
  show ?thesis
  proof (cases "pd = []")
    case False
    then have "pages_loop env base rest (all_data @ pd) sc1 = (all', sc')"
      using assms s1 by simp
    then show ?thesis using v1 False
      by (intro exI[of _ "[(q, page_url base q, length pd)]"] exI[of _ sc1]) auto
  next
    case True
    show ?thesis
    proof (cases "alt_url base q \<noteq> page_url base q")
      case False
      then have "all' = all_data" "sc' = sc1" using assms s1 True by auto
      then show ?thesis using v1 True False
        by (intro exI[of _ "[(q, page_url base q, length pd)]"] exI[of _ sc1]) auto
    next
      case alt: True
      obtain pd2 sc2 where s2: "scrape_page_with_selenium env sc1 (alt_url base q) q = (pd2, sc2)"
        by (cases "scrape_page_with_selenium env sc1 (alt_url base q) q")
      have v2: "visits sc2 = visits sc @ [(q, page_url base q, 0), (q, alt_url base q, length pd2)]"
        using scrape_page_inv(5)[OF s2] v1 True by simp
      show ?thesis
      proof (cases "pd2 = []")
        case True
        then have "all' = all_data" "sc' = sc2" using assms s1 s2 alt \<open>pd = []\<close> by auto
        then show ?thesis using v2 True alt
          by (intro exI[of _ "[(q, page_url base q, 0), (q, alt_url base q, length pd2)]"] exI[of _ sc2]) auto
      next
        case False
        then have "pages_loop env base rest (all_data @ pd2) sc2 = (all', sc')"
          using assms s1 s2 alt \<open>pd = []\<close> by auto
        then show ?thesis using v2 False alt
          by (intro exI[of _ "[(q, page_url base q, 0), (q, alt_url base q, length pd2)]"] exI[of _ sc2]) auto
      qed
    qed
  qed
qed

lemma pages_loop_visits:
  assumes "pages_loop env base ps all_data sc = (all', sc')" and "sorted_wrt (<) ps"
  shows "\<exists>E. visits sc' = visits sc @ E \<and> trace_ok base ps E"
  using assms
proof (induction ps arbitrary: all_data sc)
  case Nil
  then show ?case by (simp add: trace_ok_def)
next
  case (Cons q rest)
  have lt: "\<forall>r\<in>set rest. q < r" and srest: "sorted_wrt (<) rest" using Cons.prems(2) by auto
  from page_step[OF Cons.prems(1)] obtain Eq scq where
    v: "visits scq = visits sc @ Eq" and ne: "Eq \<noteq> []" and
    pg: "\<forall>e\<in>set Eq. fst e = q \<and> (fst (snd e) = page_url base q \<or> fst (snd e) = alt_url base q)" and
    one: "alt_url base q = page_url base q \<longrightarrow> length Eq = 1" and
    alt: "(all' = all_data \<and> sc' = scq \<and> (\<forall>e\<in>set Eq. snd (snd e) = 0)) \<or>
      (\<exists>pdq. (\<exists>e\<in>set Eq. snd (snd e) \<noteq> 0) \<and>
             pages_loop env base rest (all_data @ pdq) scq = (all', sc'))"
    by blast
  have img: "fst ` set Eq = {q}" using ne pg by (cases Eq) auto
  have filt_q: "filter (\<lambda>e. fst e = q) Eq = Eq" using pg by (simp add: filter_id_conv)
  have filt_other: "\<And>p. p \<noteq> q \<Longrightarrow> filter (\<lambda>e. fst e = p) Eq = []" using pg by (auto simp: filter_empty_conv)
  from alt show ?case
  proof
    assume stop: "all' = all_data \<and> sc' = scq \<and> (\<forall>e\<in>set Eq. snd (snd e) = 0)"
    have "trace_ok base (q # rest) Eq"
      unfolding trace_ok_def
    proof (intro conjI)
      show "fst ` set Eq \<subseteq> set (q # rest)" using img by simp
      show "\<forall>p\<in>fst ` set Eq. (\<forall>e\<in>set Eq. fst e = p \<longrightarrow> snd (snd e) = 0) \<longrightarrow> (\<forall>e\<in>set Eq. fst e \<le> p)"
        using img pg by auto
      show "\<forall>p\<in>fst ` set Eq. \<forall>r\<in>set (q # rest). r \<le> p \<longrightarrow> r \<in> fst ` set Eq"
        using img lt by auto
      show "\<forall>p. alt_url base p = page_url base p \<longrightarrow> length (filter (\<lambda>e. fst e = p) Eq) \<le> 1"
      proof (intro allI impI)
        fix p assume a: "alt_url base p = page_url base p"
        show "length (filter (\<lambda>e. fst e = p) Eq) \<le> 1"
          using a one filt_q filt_other[of p] by (cases "p = q") auto
      qed
      show "\<forall>e\<in>set Eq. fst (snd e) = page_url base (fst e) \<or> fst (snd e) = alt_url base (fst e)"
        using pg by auto
    qed
    then show ?thesis using v stop by auto
  next
    assume "\<exists>pdq. (\<exists>e\<in>set Eq. snd (snd e) \<noteq> 0) \<and>
             pages_loop env base rest (all_data @ pdq) scq = (all', sc')"
    then obtain pdq where nz: "\<exists>e\<in>set Eq. snd (snd e) \<noteq> 0"
      and loop: "pages_loop env base rest (all_data @ pdq) scq = (all', sc')" by blast
    from Cons.IH[OF loop srest] obtain Er where
      vr: "visits sc' = visits scq @ Er" and tr: "trace_ok base rest Er" by blast
    have er_pages: "fst ` set Er \<subseteq> set rest" using tr by (simp add: trace_ok_def)
    have er_gt: "\<forall>e\<in>set Er. q < fst e" using er_pages lt by auto
    have c1: "fst ` set (Eq @ Er) \<subseteq> set (q # rest)" using img er_pages by auto
    have c2: "\<forall>p\<in>fst ` set (Eq @ Er). (\<forall>e\<in>set (Eq @ Er). fst e = p \<longrightarrow> snd (snd e) = 0)
                \<longrightarrow> (\<forall>e\<in>set (Eq @ Er). fst e \<le> p)"
    proof (intro ballI impI)
      fix p e
      assume p: "p \<in> fst ` set (Eq @ Er)" and z: "\<forall>e\<in>set (Eq @ Er). fst e = p \<longrightarrow> snd (snd e) = 0"
        and e: "e \<in> set (Eq @ Er)"
      have "p \<noteq> q" using z nz pg by auto
      then have pr: "p \<in> fst ` set Er" using p img by auto
      then have "q < p" using er_gt by auto
      have "\<forall>e\<in>set Er. fst e \<le> p" using tr pr z by (auto simp: trace_ok_def)
      then show "fst e \<le> p" using e pg \<open>q < p\<close> by auto
    qed
    have c3: "\<forall>p\<in>fst ` set (Eq @ Er). \<forall>r\<in>set (q # rest). r \<le> p \<longrightarrow> r \<in> fst ` set (Eq @ Er)"
    proof (intro ballI impI)
      fix p r
      assume p: "p \<in> fst ` set (Eq @ Er)" and r: "r \<in> set (q # rest)" and le: "r \<le> p"
      show "r \<in> fst ` set (Eq @ Er)"
      proof (cases "r = q")
        case True
        then show ?thesis using img by auto
      next
        case False
        then have rr: "r \<in> set rest" using r by simp
        then have "q < r" using lt by simp
        then have "p \<noteq> q" using le by simp
        then have "p \<in> fst ` set Er" using p img by auto
        then have "r \<in> fst ` set Er" using tr rr le by (auto simp: trace_ok_def)
        then show ?thesis by auto
      qed
    qed
    have c4: "\<forall>p. alt_url base p = page_url base p \<longrightarrow> length (filter (\<lambda>e. fst e = p) (Eq @ Er)) \<le> 1"
    proof (intro allI impI)
      fix p assume a: "alt_url base p = page_url base p"
      show "length (filter (\<lambda>e. fst e = p) (Eq @ Er)) \<le> 1"
      proof (cases "p = q")
        case True
        have "filter (\<lambda>e. fst e = q) Er = []" using er_gt by (auto simp: filter_empty_conv)
        then show ?thesis using True filt_q one a by simp
      next
        case False
        then show ?thesis using filt_other tr a by (simp add: trace_ok_def)
      qed
    qed
    have c5: "\<forall>e\<in>set (Eq @ Er). fst (snd e) = page_url base (fst e) \<or> fst (snd e) = alt_url base (fst e)"
      using pg tr by (auto simp: trace_ok_def)
    have "trace_ok base (q # rest) (Eq @ Er)"
      unfolding trace_ok_def using c1 c2 c3 c4 c5 by blast
    then show ?thesis using v vr by auto
  qed
qed

lemma run_visits:
  assumes "scrape_multiple_pages env sc base max_pages = (all_data, sc')"
  shows "\<exists>E. visits sc' = visits sc @ E \<and> trace_ok base [1..max_pages] E"
proof (cases "setup_selenium env")
  case False
  then show ?thesis using assms by (auto simp: scrape_multiple_pages_def trace_ok_def)
next
  case True
  then have "pages_loop env base [1..max_pages] [] sc = (all_data, sc')"
    using assms by (simp add: scrape_multiple_pages_def)
  moreover have "sorted_wrt (<) [1..max_pages]"
    using sorted_upto distinct_upto strict_sorted_iff by blast
  ultimately show ?thesis using pages_loop_visits by blast
qed

section \<open>Strings and containers\<close>

lemma str_in_iff: "str_in needle hay \<longleftrightarrow> (\<exists>u w. hay = u @ needle @ w)"
proof (induction hay)
  case Nil
  then show ?case by auto
next
  case (Cons c cs)
  show ?case
  proof
    assume "str_in needle (c # cs)"
    then consider "prefix needle (c # cs)" | "str_in needle cs" by auto
    then show "\<exists>u w. c # cs = u @ needle @ w"
    proof cases
      case 1
      then obtain w where "c # cs = needle @ w" by (auto simp: prefix_def)
      then have "c # cs = [] @ needle @ w" by simp
      then show ?thesis by blast
    next
      case 2
      then obtain u w where "cs = u @ needle @ w" using Cons.IH by blast
      then have "c # cs = (c # u) @ needle @ w" by simp
      then show ?thesis by blast
    qed
  next
    assume "\<exists>u w. c # cs = u @ needle @ w"
    then obtain u w where uw: "c # cs = u @ needle @ w" by blast
    show "str_in needle (c # cs)"
    proof (cases u)
      case Nil
      then have "prefix needle (c # cs)" using uw by (simp add: prefix_def)
      then show ?thesis by simp
    next
      case (Cons a u')
      then have "cs = u' @ needle @ w" using uw by simp
      then have "str_in needle cs" using Cons.IH by blast
      then show ?thesis by simp
    qed
  qed
qed

lemma str_in_lower_iff:
  "str_in phrase (lower t) \<longleftrightarrow> (\<exists>u v w. t = u @ v @ w \<and> lower v = phrase)"
proof
  assume "str_in phrase (lower t)"
  then obtain a b where "map lower_char t = a @ phrase @ b"
    unfolding str_in_iff lower_def by blast
  then have "\<exists>u r. t = u @ r \<and> a = map lower_char u \<and> phrase @ b = map lower_char r"
    by (simp only: map_eq_append_conv)
  then obtain u r where u: "t = u @ r" and r: "phrase @ b = map lower_char r" by blast
  from r have "\<exists>v w. r = v @ w \<and> phrase = map lower_char v \<and> b = map lower_char w"
    by (simp only: append_eq_map_conv)
  then obtain v w where "r = v @ w" "phrase = map lower_char v" by blast
  then have "t = u @ v @ w \<and> lower v = phrase" using u by (simp add: lower_def)
  then show "\<exists>u v w. t = u @ v @ w \<and> lower v = phrase" by blast
next
  assume "\<exists>u v w. t = u @ v @ w \<and> lower v = phrase"
  then obtain u v w where "t = u @ v @ w" "lower v = phrase" by blast
  then have "lower t = lower u @ phrase @ lower w" by (auto simp: lower_def)
  then show "str_in phrase (lower t)" unfolding str_in_iff by blast
qed

lemma replace_absent: "\<not> str_in old s \<Longrightarrow> replace old new s = s"
proof (induction s)
  case Nil
  then show ?case by auto
next
  case (Cons c cs)
  from Cons.prems have np: "\<not> prefix old (c # cs)" and ns: "\<not> str_in old cs" by auto
  have "replace old new (c # cs) = c # replace old new cs" using np by simp
  then show ?case using Cons.IH[OF ns] by simp
qed

lemma alt_url_without_marker:
  "\<not> str_in ''&recently=Y'' base \<Longrightarrow> alt_url base page = base"
  by (simp add: alt_url_def replace_absent)

lemma py_eq_refl: "py_eq x x"
  by (simp add: py_eq_def)

lemma element_in_iff: "element_in x xs \<longleftrightarrow> (\<exists>y\<in>set xs. py_eq x y)"
  by (simp add: element_in_def list_ex_iff)

lemma collect_inv:
  assumes "distinct (map fst acc)" and "sorted_wrt (\<lambda>x y. \<not> py_eq y x) acc"
  shows "distinct (map fst (collect soup links acc)) \<and>
         sorted_wrt (\<lambda>x y. \<not> py_eq y x) (collect soup links acc) \<and>
         set acc \<subseteq> set (collect soup links acc) \<and>
         (\<forall>l\<in>set links. element_in (climb soup 5 l) (collect soup links acc))"
  using assms
proof (induction links arbitrary: acc)
  case Nil
  then show ?case by simp
next
  case (Cons l links)
  define c where "c = climb soup 5 l"
  define acc' where "acc' = (if \<not> element_in c acc then acc @ [c] else acc)"
  have step: "collect soup (l # links) acc = collect soup links acc'"
    by (simp add: c_def acc'_def Let_def)
  have d: "distinct (map fst acc')"
    using Cons.prems(1) unfolding acc'_def element_in_iff py_eq_def by auto
  have s: "sorted_wrt (\<lambda>x y. \<not> py_eq y x) acc'"
    using Cons.prems(2) unfolding acc'_def element_in_iff by (auto simp: sorted_wrt_append)
  have inacc: "element_in c acc'"
    unfolding acc'_def element_in_iff using py_eq_refl by auto
  have sub: "set acc \<subseteq> set acc'" unfolding acc'_def by auto
  from Cons.IH[OF d s] have ih:
    "distinct (map fst (collect soup links acc'))"
    "sorted_wrt (\<lambda>x y. \<not> py_eq y x) (collect soup links acc')"
    "set acc' \<subseteq> set (collect soup links acc')"
    "\<forall>l\<in>set links. element_in (climb soup 5 l) (collect soup links acc')" by blast+
  have "element_in c (collect soup links acc')"
    using inacc ih(3) unfolding element_in_iff by blast
  then show ?case unfolding step using ih sub c_def by auto
qed

lemma rfq_elements_inv:
  "distinct (map fst (rfq_elements_of soup))"
  "sorted_wrt (\<lambda>x y. \<not> py_eq y x) (rfq_elements_of soup)"
  "\<forall>l\<in>set (detail_links soup). element_in (climb soup 5 l) (rfq_elements_of soup)"
  using collect_inv[of "[]" soup "detail_links soup"] by (simp_all add: rfq_elements_of_def)

section \<open>The sample pages, evaluated\<close>

lemma demo_run:
  "(case scrape_multiple_pages demo_env new_scraper demo_base 3 of
      (d, sc) \<Rightarrow> (map title d, map inquiry_url d, map is_promotional d, visits sc)) =
   ([''Need 200 pieces of packaging film''],
    [''https://sourcing.alibaba.com/rfq/rfq_detail.htm?p=ID1''],
    [False],
    [(1, ''https://sourcing.alibaba.com/rfq/rfq_search_list.htm'', 1),
     (2, ''https://sourcing.alibaba.com/rfq/rfq_search_list.htm?page=2'', 0),
     (2, ''https://sourcing.alibaba.com/rfq/rfq_search_list.htm'', 0)])"
  by code_simp

lemma demo_urls:
  "\<not> str_in ''&recently=Y'' demo_base \<and>
   page_url demo_base 2 = ''https://sourcing.alibaba.com/rfq/rfq_search_list.htm?page=2'' \<and>
   alt_url demo_base 2 = ''https://sourcing.alibaba.com/rfq/rfq_search_list.htm'' \<and>
   demo_base = ''https://sourcing.alibaba.com/rfq/rfq_search_list.htm''"
  by code_simp

lemma broken_card_aborts:
  "try_extract urljoin_py broken_link_card (initial_rfq_data ''03-11-2026'') =
     ((initial_rfq_data ''03-11-2026'')\<lparr>title := ''Need 200 pieces of packaging film''\<rparr>,
      Some ValueError)"
  by code_simp

lemma broken_card_text:
  "first_search quotes_patterns (get_text broken_link_card) = Some ''5'' \<and>
   str_in ''email confirmed'' (lower (get_text broken_link_card))"
  by code_simp

lemma order_flag_card_text:
  "str_in ''complete order via rfq'' (lower (get_text order_flag_card))"
  by code_simp

lemma confirmed_card_eval:
  "snd (try_extract urljoin_py confirmed_card (initial_rfq_data ''03-11-2026'')) = None \<and>
   str_in ''email confirmed'' (lower (get_text confirmed_card))"
  by code_simp

lemma ten_card_eval:
  "find_title_link ten_card =
     Some (Tag ''a'' [(''href'', ''/rfq/rfq_detail.htm?p=ID1'')] [NavigableString ''Buy 5 pens'']) \<and>
   length (clean_text (get_text
     (Tag ''a'' [(''href'', ''/rfq/rfq_detail.htm?p=ID1'')] [NavigableString ''Buy 5 pens'']))) = 10"
  by code_simp

lemma promo_card_eval:
  "is_promotional (extract_rfq_data_improved urljoin_py ''03-11-2026'' promo_card)"
  by code_simp

lemma twin_page_eval:
  "list_ex (\<lambda>e. e = ([0, 0], link_x)) (detail_links twin_page) \<and>
   climb twin_page 5 ([0, 0], link_x) = ([], twin_page) \<and>
   climb twin_page 5 ([0, 1], link_y) = ([], twin_page) \<and>
   length (rfq_elements_of twin_page) = 1"
  by code_simp

lemma crowded_page_eval:
  "list_ex (\<lambda>e. e = ([1, 0], link_x)) (detail_links crowded_page) \<and>
   list_ex (\<lambda>e. e = ([1, 1], link_y)) (detail_links crowded_page) \<and>
   climb crowded_page 5 ([1, 0], link_x) = ([], crowded_page) \<and>
   climb crowded_page 5 ([1, 1], link_y) = ([], crowded_page) \<and>
   \<not> element_in ([], crowded_page) (get_rfq_containers crowded_page)"
  by code_simp

lemma scenario_eval:
  "map (\<lambda>f. f (extract_rfq_data_improved urljoin_py date scenario_card))
       [rfq_id, title, inquiry_time, quotes_left, quantity_required, email_confirmed, inquiry_url] =
   [''ID12345678'', ''Need 200 pieces of packaging film'', ''3 hours ago'', ''5'',
    ''200 Pieces... Email Confirmed'', ''Yes'',
    ''https://sourcing.alibaba.com/rfq/rfq_detail.htm?p=ID1234567890'']"
  by code_simp

lemma scenario_strings:
  "str_in ''200 Pieces'' ''200 Pieces... Email Confirmed'' \<and>
   prefix ''https://'' ''https://sourcing.alibaba.com/rfq/rfq_detail.htm?p=ID1234567890'' \<and>
   str_in ''p=ID12345678'' ''/rfq/rfq_detail.htm?p=ID1234567890''"
  by code_simp

section \<open>The claims\<close>

lemma extract_title_url_link:
  "find_title_link c = Some link \<Longrightarrow>
     title (fst (extract_title_url uj c d)) =
       (if 10 < length (clean_text (get_text link)) then clean_text (get_text link) else title d)"
  by (simp add: extract_title_url_def Let_def split: option.split sum.split)

lemma try_extract_title_eq:
  "title (fst (try_extract uj c d)) = title (fst (extract_title_url uj c d))"
proof (cases "snd (try_extract uj c d)")
  case None
  from try_extract_ok[OF None] obtain a b c' e f where
    "fst (try_extract uj c d) =
       extract_flags (get_text c)
         ((fst (extract_title_url uj c d))\<lparr>buyer_name := a, buyer_image := b, inquiry_time := c',
            quotes_left := e, quantity_required := f\<rparr>)" by blast
  then show ?thesis by (simp add: extract_flags_eq)
next
  case (Some e)
  obtain d1 x where x: "extract_title_url uj c d = (d1, x)" by (cases "extract_title_url uj c d")
  from Some x have "x = Some e" by (cases x) (auto simp: try_extract_def Let_def)
  then show ?thesis using x by (simp add: try_extract_def Let_def)
qed

lemma extract_fields:
  assumes "r = extract_rfq_data_improved uj date c"
  shows "country r = ''United Arab Emirates''" and "inquiry_date r = date"
    and "scraping_date r = date" and "complete_order_via_rfq r = ''No''"
    and "email_confirmed r = ''Yes'' \<or> email_confirmed r = ''No''"
    and "typical_replies r = ''Yes'' \<or> typical_replies r = ''No''"
    and "interactive_user r = ''Yes'' \<or> interactive_user r = ''No''"
    and "experienced_buyer r = ''Yes'' \<or> experienced_buyer r = ''No''"
proof -
  let ?d = "initial_rfq_data date"
  have r: "r = fst (try_extract uj c ?d)" using assms by (simp add: extract_rfq_data_improved_def)
  have "country r = ''United Arab Emirates'' \<and> inquiry_date r = date \<and> scraping_date r = date \<and>
        complete_order_via_rfq r = ''No'' \<and>
        (email_confirmed r = ''Yes'' \<or> email_confirmed r = ''No'') \<and>
        (typical_replies r = ''Yes'' \<or> typical_replies r = ''No'') \<and>
        (interactive_user r = ''Yes'' \<or> interactive_user r = ''No'') \<and>
        (experienced_buyer r = ''Yes'' \<or> experienced_buyer r = ''No'')"
  proof (cases "snd (try_extract uj c ?d)")
    case None
    from try_extract_ok[OF None] obtain a b c' e f where
      eq: "r = extract_flags (get_text c)
           ((fst (extract_title_url uj c ?d))\<lparr>buyer_name := a, buyer_image := b, inquiry_time := c',
              quotes_left := e, quantity_required := f\<rparr>)" using r by blast
    obtain x y z where t: "fst (extract_title_url uj c ?d) = ?d\<lparr>title := x, inquiry_url := y, rfq_id := z\<rparr>"
      using extract_title_url_fst[of uj c ?d] by blast
    show ?thesis unfolding eq t
      by (simp add: extract_flags_eq flag_of_def initial_rfq_data_def)
  next
    case (Some e)
    from try_extract_raise(1)[OF Some] have "r = ?d\<lparr>title := title r\<rparr>" using r by simp
    then have "country r = country ?d" "inquiry_date r = inquiry_date ?d"
      "scraping_date r = scraping_date ?d" "complete_order_via_rfq r = complete_order_via_rfq ?d"
      "email_confirmed r = email_confirmed ?d" "typical_replies r = typical_replies ?d"
      "interactive_user r = interactive_user ?d" "experienced_buyer r = experienced_buyer ?d"
      by (metis rfq_data.select_convs rfq_data.surjective rfq_data.update_convs(2))+
    then show ?thesis by (simp add: initial_rfq_data_def)
  qed
  then show "country r = ''United Arab Emirates''" and "inquiry_date r = date"
    and "scraping_date r = date" and "complete_order_via_rfq r = ''No''"
    and "email_confirmed r = ''Yes'' \<or> email_confirmed r = ''No''"
    and "typical_replies r = ''Yes'' \<or> typical_replies r = ''No''"
    and "interactive_user r = ''Yes'' \<or> interactive_user r = ''No''"
    and "experienced_buyer r = ''Yes'' \<or> experienced_buyer r = ''No''" by blast+
qed

lemma distinct_map_filter_le1:
  "distinct (map f xs) \<Longrightarrow> length (filter (\<lambda>e. f e = v) xs) \<le> 1"
proof (induction xs)
  case Nil
  then show ?case by simp
next
  case (Cons x xs)
  show ?case
  proof (cases "f x = v")
    case True
    have "\<forall>e\<in>set xs. f e \<noteq> f x" using Cons.prems by (auto simp: image_iff)
    then have "filter (\<lambda>e. f e = v) xs = []" using True by (simp add: filter_empty_conv)
    then show ?thesis using True by simp
  next
    case False
    then show ?thesis using Cons by simp
  qed
qed


text \<open>
  Claim C1. In every run, no two records of the accumulated result list have the same
  Inquiry URL, whether the second candidate comes from the same page or a later one: the
  URLs of the result are pairwise distinct and all lie in \<^verbatim>\<open>seen_urls\<close>; the URLs a page
  contributes are pairwise distinct and were not in \<^verbatim>\<open>seen_urls\<close> before the page.
\<close>

theorem accepted_urls_unique:
  "distinct (map inquiry_url (fst (scrape_multiple_pages env sc base max_pages))) \<and>
   inquiry_url ` set (fst (scrape_multiple_pages env sc base max_pages))
     \<subseteq> seen_urls (snd (scrape_multiple_pages env sc base max_pages)) \<and>
   distinct (map inquiry_url (fst (scrape_page_with_selenium env sc url page_num))) \<and>
   inquiry_url ` set (fst (scrape_page_with_selenium env sc url page_num)) \<inter> seen_urls sc = {}"
proof -
  have run: "scrape_multiple_pages env sc base max_pages =
      (fst (scrape_multiple_pages env sc base max_pages),
       snd (scrape_multiple_pages env sc base max_pages))" by simp
  have page: "scrape_page_with_selenium env sc url page_num =
      (fst (scrape_page_with_selenium env sc url page_num),
       snd (scrape_page_with_selenium env sc url page_num))" by simp
  show ?thesis
    using run_inv[OF run] scrape_page_inv(1,2)[OF page] by auto
qed

theorem accepted_urls_unique_witness:
  "map inquiry_url (fst (scrape_multiple_pages demo_env new_scraper demo_base 3)) =
     [''https://sourcing.alibaba.com/rfq/rfq_detail.htm?p=ID1''] \<and>
   distinct (map inquiry_url (fst (scrape_multiple_pages demo_env new_scraper demo_base 3))) \<and>
   ''https://sourcing.alibaba.com/rfq/rfq_detail.htm?p=ID1''
     \<in> seen_urls (snd (scrape_multiple_pages demo_env new_scraper demo_base 3))"
proof -
  let ?run = "scrape_multiple_pages demo_env new_scraper demo_base 3"
  have m: "map inquiry_url (fst ?run) = [''https://sourcing.alibaba.com/rfq/rfq_detail.htm?p=ID1'']"
    using demo_run by (simp add: case_prod_beta)
  have "inquiry_url ` set (fst ?run) = set (map inquiry_url (fst ?run))" by simp
  then have i: "''https://sourcing.alibaba.com/rfq/rfq_detail.htm?p=ID1'' \<in> inquiry_url ` set (fst ?run)"
    unfolding m by simp
  have d: "distinct (map inquiry_url (fst ?run))"
    and sub: "inquiry_url ` set (fst ?run) \<subseteq> seen_urls (snd ?run)"
    using accepted_urls_unique[of demo_env new_scraper demo_base 3] by simp_all
  from i sub have "''https://sourcing.alibaba.com/rfq/rfq_detail.htm?p=ID1'' \<in> seen_urls (snd ?run)"
    by (rule subsetD[rotated])
  then show ?thesis using m d by simp
qed

text \<open>
  Claim C7. A candidate whose lowercased title contains one of the phrases \<open>buy access\<close>,
  \<open>submit buying\<close>, \<open>join free\<close>, \<open>sign in\<close> is passed over by the loop over the
  containers, and no record of a run's result has such a title.
\<close>

theorem promotional_titles_rejected:
  "(is_promotional d \<longleftrightarrow>
      (\<exists>w\<in>set [''buy access'', ''submit buying'', ''join free'', ''sign in''].
         str_in w (lower (title d)))) \<and>
   (is_promotional (extract_rfq_data_improved (urljoin_of env) (strftime_now env k i) (snd c))
      \<longrightarrow> process_containers env k i (c # rest) page_data processed_urls seen =
           process_containers env k (Suc i) rest page_data processed_urls seen) \<and>
   (\<forall>r\<in>set (fst (scrape_multiple_pages env sc base max_pages)). \<not> is_promotional r)"
proof -
  have run: "scrape_multiple_pages env sc base max_pages =
      (fst (scrape_multiple_pages env sc base max_pages),
       snd (scrape_multiple_pages env sc base max_pages))" by simp
  have "\<forall>r\<in>set (fst (scrape_multiple_pages env sc base max_pages)). \<not> is_promotional r"
    using run_inv[OF run] by (simp add: kept_def)
  moreover have "is_promotional d \<longleftrightarrow>
      (\<exists>w\<in>set [''buy access'', ''submit buying'', ''join free'', ''sign in''].
         str_in w (lower (title d)))"
    by (simp add: is_promotional_def skip_words_def)
  moreover have "is_promotional (extract_rfq_data_improved (urljoin_of env) (strftime_now env k i) (snd c))
      \<longrightarrow> process_containers env k i (c # rest) page_data processed_urls seen =
           process_containers env k (Suc i) rest page_data processed_urls seen"
    by (simp add: Let_def)
  ultimately show ?thesis by blast
qed

theorem promotional_titles_rejected_witness:
  "is_promotional (extract_rfq_data_improved urljoin_py ''03-11-2026'' promo_card) \<and>
   process_containers demo_env 0 0 [([], promo_card)] [] {} {} = ([], {}) \<and>
   fst (scrape_multiple_pages demo_env new_scraper demo_base 3) \<noteq> [] \<and>
   \<not> is_promotional (hd (fst (scrape_multiple_pages demo_env new_scraper demo_base 3)))"
proof -
  let ?run = "scrape_multiple_pages demo_env new_scraper demo_base 3"
  have e: "urljoin_of demo_env = urljoin_py" "strftime_now demo_env 0 0 = ''03-11-2026''"
    by (simp_all add: demo_env_def)
  have ne: "fst ?run \<noteq> []"
    using demo_run by (auto simp: case_prod_beta)
  then have h: "hd (fst ?run) \<in> set (fst ?run)" by simp
  note t = promotional_titles_rejected[of "hd (fst ?run)" demo_env 0 0 "([], promo_card)" "[]" "[]" "{}" "{}"
      new_scraper demo_base 3]
  from t have t2: "is_promotional (extract_rfq_data_improved (urljoin_of demo_env)
        (strftime_now demo_env 0 0) (snd ([]::path, promo_card)))
      \<longrightarrow> process_containers demo_env 0 0 [([], promo_card)] [] {} {} =
           process_containers demo_env 0 (Suc 0) [] [] {} {}"
    and t3: "\<forall>r\<in>set (fst ?run). \<not> is_promotional r" by blast+
  have p: "process_containers demo_env 0 0 [([], promo_card)] [] {} {} = ([], {})"
    using t2 promo_card_eval unfolding e by simp
  have "\<not> is_promotional (hd (fst ?run))" using t3 h by (rule bspec)
  then show ?thesis using promo_card_eval ne p by simp
qed

text \<open>
  Claim C8. A candidate whose title is \<open>N/A\<close> or shorter than 10 characters is passed over
  by the loop over the containers, and no record of a run's result has such a title.
\<close>

theorem short_titles_rejected:
  "(title d = ''N/A'' \<or> length (title d) < 10 \<longrightarrow> skip_item d processed_urls seen) \<and>
   (skip_item (extract_rfq_data_improved (urljoin_of env) (strftime_now env k i) (snd c))
        processed_urls seen
      \<longrightarrow> process_containers env k i (c # rest) page_data processed_urls seen =
           process_containers env k (Suc i) rest page_data processed_urls seen) \<and>
   (\<forall>r\<in>set (fst (scrape_multiple_pages env sc base max_pages)).
      title r \<noteq> ''N/A'' \<and> 10 \<le> length (title r))"
proof -
  have run: "scrape_multiple_pages env sc base max_pages =
      (fst (scrape_multiple_pages env sc base max_pages),
       snd (scrape_multiple_pages env sc base max_pages))" by simp
  have "\<forall>r\<in>set (fst (scrape_multiple_pages env sc base max_pages)).
      title r \<noteq> ''N/A'' \<and> 10 \<le> length (title r)"
    using run_inv[OF run] by (auto simp: kept_def)
  moreover have "title d = ''N/A'' \<or> length (title d) < 10 \<longrightarrow> skip_item d processed_urls seen"
    by (simp add: skip_item_def)
  moreover have "skip_item (extract_rfq_data_improved (urljoin_of env) (strftime_now env k i) (snd c))
        processed_urls seen
      \<longrightarrow> process_containers env k i (c # rest) page_data processed_urls seen =
           process_containers env k (Suc i) rest page_data processed_urls seen"
    by (simp add: Let_def)
  ultimately show ?thesis by blast
qed

end
